theory Spec2Isabelle
  imports Main
begin

section \<open>Text formatting used by the checker\<close>

text \<open>
  Python text is modelled as \<open>string\<close>, holding its UTF-8 bytes. The two non-ASCII
  status marks of the source (U+2713 and U+2717) are kept as their three bytes each.
  \<open>utf8_len\<close> is Python's \<open>len\<close>: the number of characters, that is of bytes that are
  not continuation bytes. \<open>ljust\<close> is the format specification \<open><35\<close>: pad on the
  right with blanks up to that many characters, never truncate.
\<close>

definition check_mark :: string where
  "check_mark = [CHR 0xE2, CHR 0x9C, CHR 0x93]"

definition cross_mark :: string where
  "cross_mark = [CHR 0xE2, CHR 0x9C, CHR 0x97]"

definition utf8_len :: "string \<Rightarrow> nat" where
  "utf8_len s =
     length (filter (\<lambda>ch. \<not> (128 \<le> (of_char ch :: nat) \<and> (of_char ch :: nat) < 192)) s)"

definition ljust :: "nat \<Rightarrow> string \<Rightarrow> string" where
  "ljust n s = s @ replicate (n - utf8_len s) CHR '' ''"

fun join :: "string \<Rightarrow> string list \<Rightarrow> string" where
  "join sep [] = []"
| "join sep [x] = x"
| "join sep (x # y # ys) = x @ sep @ join sep (y # ys)"

fun str_nat :: "nat \<Rightarrow> string" where
  "str_nat n =
     (if n < 10 then [char_of (48 + n)]
      else str_nat (n div 10) @ [char_of (48 + n mod 10)])"

declare str_nat.simps [simp del]

definition str_int :: "int \<Rightarrow> string" where
  "str_int i = (if i < 0 then CHR ''-'' # str_nat (nat (- i)) else str_nat (nat i))"

section \<open>Exceptions, the network and the observable world\<close>

text \<open>
  The exception classes the program distinguishes: \<open>socket.gaierror\<close> (caught around the
  DNS call), any other subclass of \<open>Exception\<close>, and \<open>KeyboardInterrupt\<close>, which is a
  \<open>BaseException\<close> and therefore escapes every \<open>except Exception\<close>. Each carries the
  text that \<open>str(e)\<close> gives.
\<close>

datatype exn = KeyboardInterrupt | Gaierror string | OtherException string

fun is_Exception :: "exn \<Rightarrow> bool" where
  "is_Exception KeyboardInterrupt = False"
| "is_Exception (Gaierror _) = True"
| "is_Exception (OtherException _) = True"

fun exn_str :: "exn \<Rightarrow> string" where
  "exn_str KeyboardInterrupt = []"
| "exn_str (Gaierror m) = m"
| "exn_str (OtherException m) = m"

text \<open>
  The network is an oracle. Its first argument is the number of network calls the
  process has made before this one, so the same name or address may answer differently
  later in the run. \<open>gethostbyname_ex\<close> gives the address list (the only component of
  the triple the program reads) or raises; \<open>create_connection\<close>, followed by
  \<open>sock.close()\<close>, succeeds or raises.
\<close>

record network =
  gethostbyname_ex :: "nat \<Rightarrow> string \<Rightarrow> exn + string list"
  create_connection :: "nat \<Rightarrow> string \<times> int \<Rightarrow> int \<Rightarrow> exn + unit"

datatype net_event =
    Resolve string "exn + string list"
  | Connect string int "exn + unit"

text \<open>
  The world is what the process leaves behind: the strings given to \<open>print\<close> on
  standard output and on standard error, one entry per call, and the trace of network
  calls with the answer each one got.
\<close>

record world =
  stdout :: "string list"
  stderr :: "string list"
  net_log :: "net_event list"

definition print :: "world \<Rightarrow> string \<Rightarrow> world" where
  "print w s = w\<lparr>stdout := stdout w @ [s]\<rparr>"

definition print_err :: "world \<Rightarrow> string \<Rightarrow> world" where
  "print_err w s = w\<lparr>stderr := stderr w @ [s]\<rparr>"

definition log_event :: "world \<Rightarrow> net_event \<Rightarrow> world" where
  "log_event w ev = w\<lparr>net_log := net_log w @ [ev]\<rparr>"

section \<open>ConnectivityChecker\<close>

definition DEFAULT_DOMAINS :: "string list" where
  "DEFAULT_DOMAINS =
     [''windowsupdate.microsoft.com'',
      ''update.microsoft.com'',
      ''dl.delivery.mp.microsoft.com'',
      ''sls.update.microsoft.com'',
      ''fe2.update.microsoft.com'',
      ''download.windowsupdate.com'']"

record checker =
  timeout :: int
  verbose :: bool
  quiet :: bool
  total_domains :: int
  failed_domains :: int
  dns_failures :: int

definition ConnectivityChecker :: "int \<Rightarrow> bool \<Rightarrow> bool \<Rightarrow> checker" where
  "ConnectivityChecker t v q =
     \<lparr>timeout = t, verbose = v, quiet = q,
      total_domains = 0, failed_domains = 0, dns_failures = 0\<rparr>"

text \<open>
  The inner loop of \<open>check_domain\<close>, \<open>for port in (80, 443)\<close>, with the ports still to
  probe as a list. It threads the world, \<open>ip_ports\<close> and \<open>has_failed_port\<close>. A
  \<open>KeyboardInterrupt\<close> out of the connect leaves the loop; every \<open>Exception\<close> is caught.
\<close>

fun probe_ports ::
  "network \<Rightarrow> checker \<Rightarrow> string \<Rightarrow> int list \<Rightarrow> world \<Rightarrow> string list \<Rightarrow> bool
     \<Rightarrow> world \<times> (exn + string list \<times> bool)" where
  "probe_ports net c ip [] w ip_ports has_failed_port = (w, Inr (ip_ports, has_failed_port))"
| "probe_ports net c ip (port # ports) w ip_ports has_failed_port =
     (let r = create_connection net (length (net_log w)) (ip, port) (timeout c);
          w1 = log_event w (Connect ip port r)
      in case r of
           Inr _ \<Rightarrow>
             probe_ports net c ip ports
               (if verbose c
                then print w1 (''    Connected to '' @ ip @ '':'' @ str_int port)
                else w1)
               (ip_ports @ [check_mark @ str_int port]) has_failed_port
         | Inl e \<Rightarrow>
             if is_Exception e
             then probe_ports net c ip ports
                    (if verbose c
                     then print w1 (''    Failed to connect to '' @ ip @ '':'' @ str_int port
                                      @ '' - '' @ exn_str e)
                     else w1)
                    (ip_ports @ [cross_mark @ str_int port]) True
             else (w1, Inl e))"

text \<open>The outer loop, \<open>for ip in ip_list\<close>, threading \<open>port_results\<close> as well.\<close>

fun probe_ips ::
  "network \<Rightarrow> checker \<Rightarrow> string list \<Rightarrow> world \<Rightarrow> string list \<Rightarrow> bool
     \<Rightarrow> world \<times> (exn + string list \<times> bool)" where
  "probe_ips net c [] w port_results has_failed_port = (w, Inr (port_results, has_failed_port))"
| "probe_ips net c (ip # ips) w port_results has_failed_port =
     (case probe_ports net c ip [80, 443] w [] has_failed_port of
        (w1, Inl e) \<Rightarrow> (w1, Inl e)
      | (w1, Inr (ip_ports, has_failed_port1)) \<Rightarrow>
          probe_ips net c ips w1
            (port_results @ [ip @ '':['' @ join '','' ip_ports @ '']''])
            has_failed_port1)"

definition result_line :: "bool \<Rightarrow> string \<Rightarrow> string list \<Rightarrow> string" where
  "result_line has_failed_port domain port_results =
     ''['' @ (if has_failed_port then ''!'' else check_mark) @ ''] '' @ ljust 35 domain
       @ '' '' @ join '' | '' port_results"

definition dns_fail_line :: "string \<Rightarrow> exn \<Rightarrow> string" where
  "dns_fail_line domain e =
     ''['' @ cross_mark @ ''] '' @ ljust 35 domain @ '' DNS FAIL: '' @ exn_str e"

text \<open>
  \<open>check_domain\<close> mutates the checker and the world and then returns a truth value or
  lets an exception through; the state reached is returned in both cases.
\<close>

definition check_domain ::
  "network \<Rightarrow> world \<times> checker \<Rightarrow> string \<Rightarrow> (world \<times> checker) \<times> (exn + bool)" where
  "check_domain net s domain =
     (let w = fst s;
          c1 = (snd s)\<lparr>total_domains := total_domains (snd s) + 1\<rparr>;
          r = gethostbyname_ex net (length (net_log w)) domain;
          w1 = log_event w (Resolve domain r)
      in case r of
           Inl (Gaierror m) \<Rightarrow>
             (let c2 = c1\<lparr>dns_failures := dns_failures c1 + 1\<rparr>;
                  c3 = c2\<lparr>failed_domains := failed_domains c2 + 1\<rparr>;
                  w2 = (if \<not> quiet c3 then print w1 (dns_fail_line domain (Gaierror m)) else w1)
              in ((w2, c3), Inr False))
         | Inl e \<Rightarrow> ((w1, c1), Inl e)
         | Inr ip_list \<Rightarrow>
             (case probe_ips net c1 ip_list w1 [] False of
                (w2, Inl e) \<Rightarrow> ((w2, c1), Inl e)
              | (w2, Inr (port_results, has_failed_port)) \<Rightarrow>
                  (let c2 = (if has_failed_port
                             then c1\<lparr>failed_domains := failed_domains c1 + 1\<rparr> else c1);
                       line = result_line has_failed_port domain port_results;
                       w3 = (if quiet c2
                             then (if has_failed_port then print w2 line else w2)
                             else print w2 line)
                   in ((w3, c2), Inr (\<not> has_failed_port)))))"

text \<open>The loop of \<open>run_checks\<close> over the domains, threading \<open>success_count\<close>.\<close>

fun check_all ::
  "network \<Rightarrow> string list \<Rightarrow> world \<times> checker \<Rightarrow> int \<Rightarrow> (world \<times> checker) \<times> (exn + int)" where
  "check_all net [] s success_count = (s, Inr success_count)"
| "check_all net (domain # domains) s success_count =
     (case check_domain net s domain of
        (s1, Inl e) \<Rightarrow> (s1, Inl e)
      | (s1, Inr ok) \<Rightarrow>
          check_all net domains s1 (if ok then success_count + 1 else success_count))"

definition run_checks ::
  "network \<Rightarrow> world \<times> checker \<Rightarrow> string list \<Rightarrow> (world \<times> checker) \<times> (exn + int)" where
  "run_checks net s domains =
     (let w0 = (if \<not> quiet (snd s)
                then print (print (fst s) ([CHR 0x0A] @ ''Microsoft Update Connectivity Check''))
                       (replicate 50 CHR ''-'')
                else fst s)
      in case check_all net domains (w0, snd s) 0 of
           (s1, Inl e) \<Rightarrow> (s1, Inl e)
         | ((w1, c1), Inr success_count) \<Rightarrow>
             (let w2 =
                (if \<not> quiet c1
                 then (let w3 = print w1 ([CHR 0x0A] @ ''Summary: '' @ str_int success_count
                                           @ ''/'' @ str_int (total_domains c1)
                                           @ '' domains fully accessible'');
                           w4 = (if failed_domains c1 > 0
                                 then print w3 (''Issues found: '' @ str_int (failed_domains c1)
                                                 @ '' domains with connectivity problems'')
                                 else w3)
                       in if dns_failures c1 > 0
                          then print w4 (''DNS failures: '' @ str_int (dns_failures c1)
                                          @ '' domains'')
                          else w4)
                 else w1)
              in ((w2, c1),
                  Inr (if dns_failures c1 = total_domains c1 then 2
                       else if failed_domains c1 > 0 then 1
                       else 0))))"

section \<open>main\<close>

text \<open>
  \<open>main\<close> is modelled from the parsed arguments on: \<open>args.domains\<close> is \<open>None\<close> or the
  list the \<open>append\<close> action collected, \<open>args.timeout\<close> an integer, the two flags
  booleans. It returns the world and the value handed to \<open>sys.exit\<close>.
\<close>

record args =
  args_domains :: "string list option"
  args_timeout :: int
  args_verbose :: bool
  args_quiet :: bool

definition main :: "network \<Rightarrow> world \<Rightarrow> args \<Rightarrow> world \<times> int" where
  "main net w a =
     (let domains = DEFAULT_DOMAINS @ (case args_domains a of None \<Rightarrow> [] | Some ds \<Rightarrow> ds)
      in if args_timeout a \<le> 0
         then (print_err w ''Error: Timeout must be positive'', 2)
         else if args_verbose a \<and> args_quiet a
         then (print_err w ''Error: Cannot use both --verbose and --quiet'', 2)
         else
           (let checker = ConnectivityChecker (args_timeout a) (args_verbose a) (args_quiet a)
            in case run_checks net (w, checker) domains of
                 ((w1, _), Inr exit_code) \<Rightarrow> (w1, exit_code)
               | ((w1, _), Inl KeyboardInterrupt) \<Rightarrow>
                   (print w1 ([CHR 0x0A] @ ''Interrupted by user''), 1)
               | ((w1, _), Inl e) \<Rightarrow>
                   (print_err w1 (''Unexpected error: '' @ exn_str e), 2)))"

section \<open>Vocabulary of the statements\<close>

text \<open>
  The probes a domain with address list \<open>ips\<close> is due: every address in resolution
  order, and for each address port 80 and then port 443.
\<close>

definition address_port_pairs :: "string list \<Rightarrow> (string \<times> int) list" where
  "address_port_pairs ips = concat (map (\<lambda>ip. [(ip, 80), (ip, 443)]) ips)"

text \<open>
  \<open>probe_trace net t n ps\<close> is the trace of connecting to the pairs \<open>ps\<close> once each, in
  order, as the network calls number \<open>n\<close>, \<open>n + 1\<close>, ... of the process, with timeout
  \<open>t\<close>.
\<close>

fun probe_trace :: "network \<Rightarrow> int \<Rightarrow> nat \<Rightarrow> (string \<times> int) list \<Rightarrow> net_event list" where
  "probe_trace net t n [] = []"
| "probe_trace net t n ((ip, port) # ps) =
     Connect ip port (create_connection net n (ip, port) t) # probe_trace net t (Suc n) ps"

fun connect_ok :: "net_event \<Rightarrow> bool" where
  "connect_ok (Connect ip port r) = (case r of Inr _ \<Rightarrow> True | Inl _ \<Rightarrow> False)"
| "connect_ok (Resolve d r) = False"

fun connect_target :: "net_event \<Rightarrow> (string \<times> int) option" where
  "connect_target (Connect ip port r) = Some (ip, port)"
| "connect_target (Resolve d r) = None"

fun interrupted :: "net_event \<Rightarrow> bool" where
  "interrupted (Connect ip port r) = (r = Inl KeyboardInterrupt)"
| "interrupted (Resolve d r) = (r = Inl KeyboardInterrupt)"

text \<open>
  The exception a network call lets through to \<open>main\<close>, if any: out of a resolution
  everything but \<open>gaierror\<close>, out of a connect only what is not an \<open>Exception\<close>.
  \<open>stops_at evs out\<close> says that a piece of the trace ends the way the piece of program
  that made it ended: with \<open>out = None\<close> no call in \<open>evs\<close> let an exception through,
  with \<open>out = Some e\<close> the last call, and no call before it, let \<open>e\<close> through.
\<close>

fun escapes :: "net_event \<Rightarrow> exn option" where
  "escapes (Resolve d r) =
     (case r of Inl (Gaierror m) \<Rightarrow> None | Inl e \<Rightarrow> Some e | Inr ips \<Rightarrow> None)"
| "escapes (Connect ip port r) =
     (case r of Inl e \<Rightarrow> (if is_Exception e then None else Some e) | Inr u \<Rightarrow> None)"

fun raised :: "exn + 'a \<Rightarrow> exn option" where
  "raised (Inl e) = Some e"
| "raised (Inr x) = None"

definition stops_at :: "net_event list \<Rightarrow> exn option \<Rightarrow> bool" where
  "stops_at evs out =
     (case out of
        None \<Rightarrow> list_all (\<lambda>ev. escapes ev = None) evs
      | Some e \<Rightarrow> evs \<noteq> [] \<and> list_all (\<lambda>ev. escapes ev = None) (butlast evs)
                  \<and> escapes (last evs) = Some e)"

text \<open>The invariant of the three counters.\<close>

definition counters_ok :: "checker \<Rightarrow> bool" where
  "counters_ok c \<longleftrightarrow> dns_failures c \<le> failed_domains c \<and> failed_domains c \<le> total_domains c"

text \<open>
  The exit code law in the words of the specification, with its guard
  \<open>totalDomains > 0\<close> on the first case; \<open>run_checks\<close> above is the code.
\<close>

definition exit_code_law :: "checker \<Rightarrow> int" where
  "exit_code_law c =
     (if dns_failures c = total_domains c \<and> 0 < total_domains c then 2
      else if 0 < failed_domains c then 1
      else 0)"

subsection \<open>A network and a world to run the program on\<close>

text \<open>
  \<open>good.example\<close> has one address with both ports open; \<open>mixed.example\<close> has an
  address whose port 443 times out and then that open address; \<open>empty.example\<close> resolves to no
  address; \<open>hang.example\<close> has an address on which the user interrupts the connect;
  resolving \<open>stop.example\<close> is interrupted, resolving \<open>odd.example\<close> raises an error
  that is not a \<open>gaierror\<close>; every other name is unknown.
\<close>

definition example_net :: network where
  "example_net =
     \<lparr>gethostbyname_ex = (\<lambda>n domain.
        if domain = ''good.example'' then Inr [''192.0.2.1'']
        else if domain = ''mixed.example'' then Inr [''192.0.2.2'', ''192.0.2.1'']
        else if domain = ''empty.example'' then Inr []
        else if domain = ''hang.example'' then Inr [''192.0.2.9'']
        else if domain = ''stop.example'' then Inl KeyboardInterrupt
        else if domain = ''odd.example'' then Inl (OtherException ''host name lookup failure'')
        else Inl (Gaierror ''[Errno -2] Name or service not known'')),
      create_connection = (\<lambda>n (ip, port) t.
        if ip = ''192.0.2.9'' then Inl KeyboardInterrupt
        else if ip = ''192.0.2.2'' \<and> port = 443 then Inl (OtherException ''timed out'')
        else Inr ())\<rparr>"

text \<open>A network on which the user interrupts every call.\<close>

definition interrupting_net :: network where
  "interrupting_net =
     \<lparr>gethostbyname_ex = (\<lambda>n domain. Inl KeyboardInterrupt),
      create_connection = (\<lambda>n a t. Inl KeyboardInterrupt)\<rparr>"

definition empty_world :: world where
  "empty_world = \<lparr>stdout = [], stderr = [], net_log = []\<rparr>"

section \<open>The probing loops\<close>

lemma length_probe_trace [simp]: "length (probe_trace net t n ps) = length ps"
  by (induction ps arbitrary: n) auto

lemma probe_trace_append:
  "probe_trace net t n (ps @ qs) = probe_trace net t n ps @ probe_trace net t (n + length ps) qs"
  by (induction ps arbitrary: n) auto

lemma connect_target_probe_trace:
  "map connect_target (probe_trace net t n ps) = map Some ps"
  by (induction ps arbitrary: n) auto

lemma length_address_port_pairs: "length (address_port_pairs ips) = 2 * length ips"
  by (induction ips) (auto simp add: address_port_pairs_def)

lemma count_address_port_pairs:
  "count_list (address_port_pairs ips) (ip, port) =
     (if port = 80 \<or> port = 443 then count_list ips ip else 0)"
  by (induction ips) (auto simp add: address_port_pairs_def)

lemma probe_ports_Inr:
  "probe_ports net c ip ports w acc hfp = (w', Inr (acc', hfp')) \<Longrightarrow>
     net_log w' = net_log w @ probe_trace net (timeout c) (length (net_log w)) (map (Pair ip) ports)
     \<and> hfp' = (hfp \<or> \<not> list_all connect_ok
                  (probe_trace net (timeout c) (length (net_log w)) (map (Pair ip) ports)))
     \<and> stderr w' = stderr w
     \<and> (\<not> verbose c \<longrightarrow> stdout w' = stdout w)"
proof (induction ports arbitrary: w acc hfp)
  case Nil
  then show ?case by simp
next
  case (Cons port ports)
  obtain r where r: "create_connection net (length (net_log w)) (ip, port) (timeout c) = r"
    by simp
  from Cons.prems r obtain w2 acc2 hfp2 where
    step: "probe_ports net c ip ports w2 acc2 hfp2 = (w', Inr (acc', hfp'))"
    and w2: "net_log w2 = net_log w @ [Connect ip port r]" "stderr w2 = stderr w"
            "\<not> verbose c \<longrightarrow> stdout w2 = stdout w"
    and h2: "hfp2 = (hfp \<or> \<not> connect_ok (Connect ip port r))"
    by (cases r) (auto simp add: Let_def log_event_def print_def split: if_splits)
  from Cons.IH [OF step] w2 h2 r show ?case
    by auto
qed

lemma probe_ports_Inl:
  "probe_ports net c ip ports w acc hfp = (w', Inl e) \<Longrightarrow> e = KeyboardInterrupt"
proof (induction ports arbitrary: w acc hfp)
  case Nil
  then show ?case by simp
next
  case (Cons port ports)
  then show ?case
    by (cases "create_connection net (length (net_log w)) (ip, port) (timeout c)")
       (auto simp add: Let_def split: if_splits intro: is_Exception.elims)
qed

lemma probe_ports_returns:
  "\<not> list_ex interrupted
       (probe_trace net (timeout c) (length (net_log w)) (map (Pair ip) ports)) \<Longrightarrow>
     \<exists>w' acc' hfp'. probe_ports net c ip ports w acc hfp = (w', Inr (acc', hfp'))"
proof (induction ports arbitrary: w acc hfp)
  case Nil
  then show ?case by simp
next
  case (Cons port ports)
  have step: "\<exists>w' acc' hfp'. probe_ports net c ip ports w2 acc2 hfp2 = (w', Inr (acc', hfp'))"
    if "length (net_log w2) = Suc (length (net_log w))" for w2 acc2 hfp2
    using Cons.IH [of w2 acc2 hfp2] Cons.prems that by simp
  show ?case
  proof (cases "create_connection net (length (net_log w)) (ip, port) (timeout c)")
    case (Inr u)
    then show ?thesis
      using step by (simp add: Let_def log_event_def print_def)
  next
    case (Inl e)
    with Cons.prems have "e \<noteq> KeyboardInterrupt" by auto
    then have "is_Exception e" by (cases e) auto
    with Inl show ?thesis
      using step by (simp add: Let_def log_event_def print_def)
  qed
qed

lemma probe_ports_output:
  "probe_ports net c ip ports w acc hfp = (w', r) \<Longrightarrow>
     stderr w' = stderr w \<and> (\<not> verbose c \<longrightarrow> stdout w' = stdout w)"
proof (induction ports arbitrary: w acc hfp)
  case Nil
  then show ?case by auto
next
  case (Cons port ports)
  let ?r = "create_connection net (length (net_log w)) (ip, port) (timeout c)"
  let ?w1 = "log_event w (Connect ip port ?r)"
  from Cons.prems consider
    (stop) "w' = ?w1"
    | (go) w2 acc2 hfp2 where "probe_ports net c ip ports w2 acc2 hfp2 = (w', r)"
        "stderr w2 = stderr w" "\<not> verbose c \<longrightarrow> stdout w2 = stdout w"
    by (cases ?r) (auto simp add: Let_def log_event_def print_def split: if_splits)
  then show ?case
  proof cases
    case stop
    then show ?thesis by (simp add: log_event_def)
  next
    case go
    with Cons.IH [OF go(1)] show ?thesis by simp
  qed
qed

lemma probe_ips_Inr:
  "probe_ips net c ips w prs hfp = (w', Inr (prs', hfp')) \<Longrightarrow>
     net_log w' = net_log w @ probe_trace net (timeout c) (length (net_log w)) (address_port_pairs ips)
     \<and> hfp' = (hfp \<or> \<not> list_all connect_ok
                  (probe_trace net (timeout c) (length (net_log w)) (address_port_pairs ips)))
     \<and> stderr w' = stderr w
     \<and> (\<not> verbose c \<longrightarrow> stdout w' = stdout w)"
proof (induction ips arbitrary: w prs hfp)
  case Nil
  then show ?case by (simp add: address_port_pairs_def)
next
  case (Cons ip ips)
  from Cons.prems obtain w1 ip_ports hfp1 where
    inner: "probe_ports net c ip [80, 443] w [] hfp = (w1, Inr (ip_ports, hfp1))"
    and rest: "probe_ips net c ips w1 (prs @ [ip @ '':['' @ join '','' ip_ports @ '']'']) hfp1
                 = (w', Inr (prs', hfp'))"
    by (auto simp del: probe_ports.simps split: prod.splits sum.splits)
  have pairs: "address_port_pairs (ip # ips) = map (Pair ip) [80, 443] @ address_port_pairs ips"
    by (simp add: address_port_pairs_def)
  from probe_ports_Inr [OF inner] Cons.IH [OF rest] show ?case
    unfolding pairs probe_trace_append by (auto simp add: add.commute)
qed

lemma probe_ips_Inl:
  "probe_ips net c ips w prs hfp = (w', Inl e) \<Longrightarrow> e = KeyboardInterrupt"
proof (induction ips arbitrary: w prs hfp)
  case Nil
  then show ?case by simp
next
  case (Cons ip ips)
  then show ?case
    by (auto simp del: probe_ports.simps split: prod.splits sum.splits dest: probe_ports_Inl)
qed

lemma probe_ips_returns:
  "\<not> list_ex interrupted
       (probe_trace net (timeout c) (length (net_log w)) (address_port_pairs ips)) \<Longrightarrow>
     \<exists>w' prs' hfp'. probe_ips net c ips w prs hfp = (w', Inr (prs', hfp'))"
proof (induction ips arbitrary: w prs hfp)
  case Nil
  then show ?case by simp
next
  case (Cons ip ips)
  have pairs: "address_port_pairs (ip # ips) = map (Pair ip) [80, 443] @ address_port_pairs ips"
    by (simp add: address_port_pairs_def)
  from Cons.prems
  have here: "\<not> list_ex interrupted
                  (probe_trace net (timeout c) (length (net_log w)) (map (Pair ip) [80, 443]))"
    and later: "\<not> list_ex interrupted
                  (probe_trace net (timeout c) (length (net_log w) + 2) (address_port_pairs ips))"
    unfolding pairs probe_trace_append by simp_all
  from probe_ports_returns [OF here] obtain w1 ip_ports hfp1 where
    inner: "probe_ports net c ip [80, 443] w [] hfp = (w1, Inr (ip_ports, hfp1))"
    by blast
  from probe_ports_Inr [OF inner] have "length (net_log w1) = length (net_log w) + 2"
    by simp
  with later Cons.IH [of w1] inner show ?case
    by (simp del: probe_ports.simps)
qed

lemma probe_ips_output:
  "probe_ips net c ips w prs hfp = (w', r) \<Longrightarrow>
     stderr w' = stderr w \<and> (\<not> verbose c \<longrightarrow> stdout w' = stdout w)"
proof (induction ips arbitrary: w prs hfp)
  case Nil
  then show ?case by auto
next
  case (Cons ip ips)
  obtain w1 r1 where inner: "probe_ports net c ip [80, 443] w [] hfp = (w1, r1)"
    by (cases "probe_ports net c ip [80, 443] w [] hfp") blast
  note out1 = probe_ports_output [OF inner]
  show ?case
  proof (cases r1)
    case (Inl e)
    with Cons.prems inner have "w' = w1"
      by (simp del: probe_ports.simps)
    with out1 show ?thesis by simp
  next
    case (Inr p)
    with Cons.prems inner obtain prs2 where
      "probe_ips net c ips w1 prs2 (snd p) = (w', r)"
      by (cases p) (simp del: probe_ports.simps)
    from Cons.IH [OF this] out1 show ?thesis by simp
  qed
qed

section \<open>One domain\<close>

lemma check_domain_gaierror:
  "gethostbyname_ex net (length (net_log w)) d = Inl (Gaierror m) \<Longrightarrow>
     check_domain net (w, c) d =
       (((if quiet c then log_event w (Resolve d (Inl (Gaierror m)))
          else print (log_event w (Resolve d (Inl (Gaierror m)))) (dns_fail_line d (Gaierror m))),
         c\<lparr>total_domains := total_domains c + 1, dns_failures := dns_failures c + 1,
           failed_domains := failed_domains c + 1\<rparr>),
        Inr False)"
  by (simp add: check_domain_def Let_def)

lemma check_domain_resolved:
  assumes dns: "gethostbyname_ex net (length (net_log w)) d = Inr ips"
    and ret: "check_domain net (w, c) d = ((w', c'), Inr b)"
  shows "net_log w' = net_log w @ Resolve d (Inr ips)
            # probe_trace net (timeout c) (Suc (length (net_log w))) (address_port_pairs ips)"
    and "b = list_all connect_ok
               (probe_trace net (timeout c) (Suc (length (net_log w))) (address_port_pairs ips))"
    and "c' = c\<lparr>total_domains := total_domains c + 1,
                  failed_domains := (if b then failed_domains c else failed_domains c + 1)\<rparr>"
    and "stderr w' = stderr w"
    and "quiet c \<and> \<not> verbose c \<Longrightarrow>
           \<exists>prs. stdout w' = stdout w @ (if b then [] else [result_line True d prs])"
    and "\<not> quiet c \<and> \<not> verbose c \<Longrightarrow>
           \<exists>prs. stdout w' = stdout w @ [result_line (\<not> b) d prs]"
proof -
  let ?c1 = "c\<lparr>total_domains := total_domains c + 1\<rparr>"
  let ?w1 = "log_event w (Resolve d (Inr ips))"
  obtain w2 r2 where loop0: "probe_ips net ?c1 ips ?w1 [] False = (w2, r2)"
    by (cases "probe_ips net ?c1 ips ?w1 [] False") blast
  from dns ret loop0 obtain prs hfp where r2: "r2 = Inr (prs, hfp)"
    by (cases r2) (auto simp add: check_domain_def Let_def)
  from loop0 r2 have loop: "probe_ips net ?c1 ips ?w1 [] False = (w2, Inr (prs, hfp))"
    by simp
  from dns loop
  have "check_domain net (w, c) d =
          (((if quiet c then (if hfp then print w2 (result_line hfp d prs) else w2)
             else print w2 (result_line hfp d prs)),
            (if hfp then ?c1\<lparr>failed_domains := failed_domains c + 1\<rparr> else ?c1)),
           Inr (\<not> hfp))"
    by (simp add: check_domain_def Let_def)
  with ret
  have w': "w' = (if quiet c then (if hfp then print w2 (result_line hfp d prs) else w2)
                  else print w2 (result_line hfp d prs))"
    and c': "c' = (if hfp then ?c1\<lparr>failed_domains := failed_domains c + 1\<rparr> else ?c1)"
    and b: "b = (\<not> hfp)"
    by simp_all
  note facts = probe_ips_Inr [OF loop]
  from facts w' show "net_log w' = net_log w @ Resolve d (Inr ips)
            # probe_trace net (timeout c) (Suc (length (net_log w))) (address_port_pairs ips)"
    by (simp add: log_event_def print_def)
  from facts b show "b = list_all connect_ok
               (probe_trace net (timeout c) (Suc (length (net_log w))) (address_port_pairs ips))"
    by (simp add: log_event_def)
  from c' b show "c' = c\<lparr>total_domains := total_domains c + 1,
                  failed_domains := (if b then failed_domains c else failed_domains c + 1)\<rparr>"
    by simp
  from facts w' show "stderr w' = stderr w"
    by (simp add: log_event_def print_def)
  from facts w' b show "\<exists>prs. stdout w' = stdout w @ (if b then [] else [result_line True d prs])"
    if "quiet c \<and> \<not> verbose c"
    using that by (auto simp add: log_event_def print_def)
  from facts w' b show "\<exists>prs. stdout w' = stdout w @ [result_line (\<not> b) d prs]"
    if "\<not> quiet c \<and> \<not> verbose c"
    using that by (auto simp add: log_event_def print_def)
qed

lemma check_domain_resolved_returns:
  assumes dns: "gethostbyname_ex net (length (net_log w)) d = Inr ips"
    and ok: "\<not> list_ex interrupted
               (probe_trace net (timeout c) (Suc (length (net_log w))) (address_port_pairs ips))"
  shows "\<exists>w' c' b. check_domain net (w, c) d = ((w', c'), Inr b)"
proof -
  let ?c1 = "c\<lparr>total_domains := total_domains c + 1\<rparr>"
  let ?w1 = "log_event w (Resolve d (Inr ips))"
  from ok have "\<not> list_ex interrupted
                   (probe_trace net (timeout ?c1) (length (net_log ?w1)) (address_port_pairs ips))"
    by (simp add: log_event_def)
  from probe_ips_returns [OF this] obtain w2 prs hfp where
    "probe_ips net ?c1 ips ?w1 [] False = (w2, Inr (prs, hfp))"
    by blast
  with dns show ?thesis
    by (simp add: check_domain_def Let_def)
qed

lemma check_domain_counters:
  "check_domain net (w, c) d = ((w', c'), r) \<Longrightarrow>
     total_domains c' = total_domains c + 1
     \<and> timeout c' = timeout c \<and> verbose c' = verbose c \<and> quiet c' = quiet c
     \<and> (case r of
          Inl e \<Rightarrow> failed_domains c' = failed_domains c \<and> dns_failures c' = dns_failures c
        | Inr b \<Rightarrow>
            failed_domains c' = (if b then failed_domains c else failed_domains c + 1)
            \<and> dns_failures c' \<in> {dns_failures c, dns_failures c + 1}
            \<and> (b \<longrightarrow> dns_failures c' = dns_failures c))"
  by (auto simp add: check_domain_def Let_def split: prod.splits sum.splits exn.splits if_splits)


section \<open>The run\<close>

lemma check_all_counters_ok:
  "check_all net ds (w, c) n = ((w', c'), r) \<Longrightarrow> counters_ok c \<Longrightarrow> counters_ok c'"
proof (induction ds arbitrary: w c n)
  case Nil
  then show ?case by simp
next
  case (Cons d ds)
  obtain w1 c1 r1 where one: "check_domain net (w, c) d = ((w1, c1), r1)"
    by (cases "check_domain net (w, c) d") auto
  from check_domain_counters [OF one] Cons.prems(2) have ok1: "counters_ok c1"
    by (cases r1) (auto simp add: counters_ok_def split: if_splits)
  show ?case
  proof (cases r1)
    case (Inl e)
    with Cons.prems(1) one ok1 show ?thesis by simp
  next
    case (Inr b)
    with Cons.prems(1) one obtain n1 where "check_all net ds (w1, c1) n1 = ((w', c'), r)"
      by simp
    from Cons.IH [OF this ok1] show ?thesis .
  qed
qed

lemma check_all_success_count:
  "check_all net ds (w, c) n = ((w', c'), Inr n') \<Longrightarrow>
     total_domains c' = total_domains c + int (length ds)
     \<and> n' - n = int (length ds) - (failed_domains c' - failed_domains c)
     \<and> timeout c' = timeout c \<and> verbose c' = verbose c \<and> quiet c' = quiet c"
proof (induction ds arbitrary: w c n)
  case Nil
  then show ?case by simp
next
  case (Cons d ds)
  obtain w1 c1 r1 where one: "check_domain net (w, c) d = ((w1, c1), r1)"
    by (cases "check_domain net (w, c) d") auto
  from Cons.prems one obtain b where b: "r1 = Inr b"
    and rest: "check_all net ds (w1, c1) (if b then n + 1 else n) = ((w', c'), Inr n')"
    by (cases r1) auto
  from check_domain_counters [OF one] b Cons.IH [OF rest] show ?case
    by (auto split: if_splits)
qed



lemma run_checks_checker:
  "snd (fst (run_checks net (w, c) ds)) =
     snd (fst (check_all net ds
       ((if \<not> quiet c
         then print (print w ([CHR 0x0A] @ ''Microsoft Update Connectivity Check''))
                (replicate 50 CHR ''-'')
         else w), c) 0))"
  by (simp add: run_checks_def Let_def split: prod.splits sum.splits)

lemma run_checks_Inr:
  assumes "run_checks net (w, c) ds = ((w', c'), Inr code)"
  shows "\<exists>w0 w1 success_count.
           check_all net ds (w0, c) 0 = ((w1, c'), Inr success_count)
           \<and> code = (if dns_failures c' = total_domains c' then 2
                       else if 0 < failed_domains c' then 1 else 0)
           \<and> (\<not> quiet c' \<longrightarrow>
                  ([CHR 0x0A] @ ''Summary: '' @ str_int success_count @ ''/''
                     @ str_int (total_domains c') @ '' domains fully accessible'')
                  \<in> set (stdout w'))"
proof -
  let ?w0 = "if \<not> quiet c
             then print (print w ([CHR 0x0A] @ ''Microsoft Update Connectivity Check''))
                    (replicate 50 CHR ''-'')
             else w"
  obtain w1 c1 r1 where loop: "check_all net ds (?w0, c) 0 = ((w1, c1), r1)"
    by (cases "check_all net ds (?w0, c) 0") auto
  have "snd (run_checks net (w, c) ds) = Inl e" if "r1 = Inl e" for e
    using loop that by (cases "quiet c") (simp_all add: run_checks_def Let_def)
  with assms obtain sc where r1: "r1 = Inr sc"
    by (cases r1) auto
  let ?line = "[CHR 0x0A] @ ''Summary: '' @ str_int sc @ ''/'' @ str_int (total_domains c1)
                 @ '' domains fully accessible''"
  from loop r1 have "snd (run_checks net (w, c) ds)
      = Inr (if dns_failures c1 = total_domains c1 then 2
             else if 0 < failed_domains c1 then 1 else 0)"
    and "snd (fst (run_checks net (w, c) ds)) = c1"
    and "\<not> quiet c1 \<longrightarrow> ?line \<in> set (stdout (fst (fst (run_checks net (w, c) ds))))"
    by (cases "quiet c"; simp add: run_checks_def Let_def print_def)+
  with assms loop r1 show ?thesis
    by auto
qed


section \<open>The trace of a run and the exception that ends it\<close>

lemma stops_at_single: "stops_at [ev] (escapes ev)"
  by (cases "escapes ev") (simp_all add: stops_at_def)

lemma stops_at_append:
  "list_all (\<lambda>ev. escapes ev = None) xs \<Longrightarrow> stops_at ys out \<Longrightarrow> stops_at (xs @ ys) out"
  by (cases out) (auto simp add: stops_at_def butlast_append)

lemma stops_at_escape:
  assumes "stops_at evs out" and "ev \<in> set evs" and "escapes ev = Some e"
  shows "out = Some e"
proof (cases out)
  case None
  with assms show ?thesis
    by (auto simp add: stops_at_def list_all_iff)
next
  case (Some e')
  with assms(1) have ne: "evs \<noteq> []"
    and quiet_before: "\<forall>x \<in> set (butlast evs). escapes x = None"
    and at_end: "escapes (last evs) = Some e'"
    by (simp_all add: stops_at_def list_all_iff)
  from ne have "evs = butlast evs @ [last evs]" by simp
  then have "set evs = set (butlast evs) \<union> {last evs}"
    by (metis list.simps(15) set_append empty_set Un_insert_right sup_bot.right_neutral)
  with assms(2,3) quiet_before have "ev = last evs" by auto
  with at_end assms(3) Some show ?thesis by simp
qed

lemma probe_ports_trace:
  "probe_ports net c ip ports w acc hfp = (w', r) \<Longrightarrow>
     \<exists>evs. net_log w' = net_log w @ evs \<and> stops_at evs (raised r)"
proof (induction ports arbitrary: w acc hfp)
  case Nil
  then show ?case by (auto simp add: stops_at_def)
next
  case (Cons port ports)
  let ?r = "create_connection net (length (net_log w)) (ip, port) (timeout c)"
  let ?ev = "Connect ip port ?r"
  from Cons.prems consider
    (stop) "net_log w' = net_log w @ [?ev]" "raised r = escapes ?ev"
    | (go) w2 acc2 hfp2 where "probe_ports net c ip ports w2 acc2 hfp2 = (w', r)"
        "net_log w2 = net_log w @ [?ev]" "escapes ?ev = None"
    by (cases ?r) (auto simp add: Let_def log_event_def print_def split: if_splits)
  then show ?case
  proof cases
    case stop
    with stops_at_single [of ?ev] show ?thesis by auto
  next
    case go
    from Cons.IH [OF go(1)] obtain evs where
      evs: "net_log w' = net_log w2 @ evs" "stops_at evs (raised r)"
      by blast
    from go(3) evs(2) have "stops_at ([?ev] @ evs) (raised r)"
      by (intro stops_at_append) simp_all
    with evs(1) go(2) show ?thesis by auto
  qed
qed

lemma probe_ips_trace:
  "probe_ips net c ips w prs hfp = (w', r) \<Longrightarrow>
     \<exists>evs. net_log w' = net_log w @ evs \<and> stops_at evs (raised r)"
proof (induction ips arbitrary: w prs hfp)
  case Nil
  then show ?case by (auto simp add: stops_at_def)
next
  case (Cons ip ips)
  obtain w1 r1 where inner: "probe_ports net c ip [80, 443] w [] hfp = (w1, r1)"
    by (cases "probe_ports net c ip [80, 443] w [] hfp") blast
  from probe_ports_trace [OF inner] obtain evs1 where
    evs1: "net_log w1 = net_log w @ evs1" "stops_at evs1 (raised r1)"
    by blast
  show ?case
  proof (cases r1)
    case (Inl e)
    with Cons.prems inner have "w' = w1" "r = Inl e"
      by (simp_all del: probe_ports.simps)
    with evs1 Inl show ?thesis by auto
  next
    case (Inr p)
    with Cons.prems inner obtain prs2 where
      rest: "probe_ips net c ips w1 prs2 (snd p) = (w', r)"
      by (cases p) (simp del: probe_ports.simps)
    from Cons.IH [OF rest] obtain evs2 where
      evs2: "net_log w' = net_log w1 @ evs2" "stops_at evs2 (raised r)"
      by blast
    from evs1(2) Inr have "list_all (\<lambda>ev. escapes ev = None) evs1"
      by (simp add: stops_at_def)
    from stops_at_append [OF this evs2(2)] evs1(1) evs2(1) show ?thesis by auto
  qed
qed

lemma check_domain_trace:
  assumes "check_domain net (w, c) d = ((w', c'), r)"
  shows "\<exists>evs. net_log w' =
                 net_log w @ Resolve d (gethostbyname_ex net (length (net_log w)) d) # evs
           \<and> stops_at (Resolve d (gethostbyname_ex net (length (net_log w)) d) # evs) (raised r)"
proof (cases "gethostbyname_ex net (length (net_log w)) d")
  case (Inl e)
  have "net_log (fst (fst (check_domain net (w, c) d))) = net_log w @ [Resolve d (Inl e)]
        \<and> raised (snd (check_domain net (w, c) d)) = escapes (Resolve d (Inl e))"
    using Inl by (cases e) (simp_all add: check_domain_def Let_def log_event_def print_def)
  with assms Inl stops_at_single [of "Resolve d (Inl e)"] show ?thesis
    by simp
next
  case (Inr ips)
  let ?c1 = "c\<lparr>total_domains := total_domains c + 1\<rparr>"
  let ?w1 = "log_event w (Resolve d (Inr ips))"
  obtain w2 r2 where loop: "probe_ips net ?c1 ips ?w1 [] False = (w2, r2)"
    by (cases "probe_ips net ?c1 ips ?w1 [] False") blast
  from probe_ips_trace [OF loop] obtain evs where
    evs: "net_log w2 = net_log w @ Resolve d (Inr ips) # evs" "stops_at evs (raised r2)"
    by (auto simp add: log_event_def)
  from Inr loop have "net_log (fst (fst (check_domain net (w, c) d))) = net_log w2
        \<and> raised (snd (check_domain net (w, c) d)) = raised r2"
    by (cases r2) (auto simp add: check_domain_def Let_def print_def split: prod.splits)
  with assms have "net_log w' = net_log w2" "raised r = raised r2"
    by simp_all
  moreover from evs(2) have "stops_at ([Resolve d (Inr ips)] @ evs) (raised r2)"
    by (intro stops_at_append) simp_all
  ultimately show ?thesis
    using evs(1) Inr by simp
qed

lemma check_all_trace:
  "check_all net ds (w, c) n = ((w', c'), r) \<Longrightarrow>
     \<exists>evs. net_log w' = net_log w @ evs \<and> stops_at evs (raised r)"
proof (induction ds arbitrary: w c n)
  case Nil
  then show ?case by (auto simp add: stops_at_def)
next
  case (Cons d ds)
  obtain w1 c1 r1 where one: "check_domain net (w, c) d = ((w1, c1), r1)"
    by (cases "check_domain net (w, c) d") auto
  from check_domain_trace [OF one] obtain evs1 where
    evs1: "net_log w1 = net_log w @ evs1" "stops_at evs1 (raised r1)"
    by blast
  show ?case
  proof (cases r1)
    case (Inl e)
    with Cons.prems one have "w' = w1" "r = Inl e" by simp_all
    with evs1 Inl show ?thesis by auto
  next
    case (Inr b)
    with Cons.prems one obtain n1 where "check_all net ds (w1, c1) n1 = ((w', c'), r)"
      by simp
    from Cons.IH [OF this] obtain evs2 where
      evs2: "net_log w' = net_log w1 @ evs2" "stops_at evs2 (raised r)"
      by blast
    from evs1(2) Inr have "list_all (\<lambda>ev. escapes ev = None) evs1"
      by (simp add: stops_at_def)
    from stops_at_append [OF this evs2(2)] evs1(1) evs2(1) show ?thesis by auto
  qed
qed

lemma run_checks_trace:
  assumes "run_checks net (w, c) ds = ((w', c'), r)"
  shows "\<exists>evs. net_log w' = net_log w @ evs \<and> stops_at evs (raised r)"
proof -
  let ?w0 = "if \<not> quiet c
             then print (print w ([CHR 0x0A] @ ''Microsoft Update Connectivity Check''))
                    (replicate 50 CHR ''-'')
             else w"
  obtain w1 c1 r1 where loop: "check_all net ds (?w0, c) 0 = ((w1, c1), r1)"
    by (cases "check_all net ds (?w0, c) 0") auto
  from check_all_trace [OF loop] obtain evs where
    evs: "net_log w1 = net_log w @ evs" "stops_at evs (raised r1)"
    by (auto simp add: print_def)
  from loop have "net_log (fst (fst (run_checks net (w, c) ds))) = net_log w1
        \<and> raised (snd (run_checks net (w, c) ds)) = raised r1"
    by (cases "quiet c"; cases r1) (simp_all add: run_checks_def Let_def print_def)
  with assms evs show ?thesis by simp
qed

lemma check_all_first_event:
  assumes "check_all net (d # ds) (w, c) n = ((w', c'), r)"
  shows "\<exists>evs. net_log w' =
                 net_log w @ Resolve d (gethostbyname_ex net (length (net_log w)) d) # evs"
proof -
  obtain w1 c1 r1 where one: "check_domain net (w, c) d = ((w1, c1), r1)"
    by (cases "check_domain net (w, c) d") auto
  from check_domain_trace [OF one] obtain evs1 where
    evs1: "net_log w1 =
             net_log w @ Resolve d (gethostbyname_ex net (length (net_log w)) d) # evs1"
    by blast
  show ?thesis
  proof (cases r1)
    case (Inl e)
    with assms one have "w' = w1" by simp
    with evs1 show ?thesis by simp
  next
    case (Inr b)
    with assms one obtain n1 where "check_all net ds (w1, c1) n1 = ((w', c'), r)"
      by simp
    from check_all_trace [OF this] evs1 show ?thesis by auto
  qed
qed

lemma check_domain_stderr:
  assumes "check_domain net (w, c) d = ((w', c'), r)"
  shows "stderr w' = stderr w"
proof (cases "gethostbyname_ex net (length (net_log w)) d")
  case (Inl e)
  then have "stderr (fst (fst (check_domain net (w, c) d))) = stderr w"
    by (cases e) (simp_all add: check_domain_def Let_def log_event_def print_def)
  with assms show ?thesis by simp
next
  case (Inr ips)
  let ?c1 = "c\<lparr>total_domains := total_domains c + 1\<rparr>"
  let ?w1 = "log_event w (Resolve d (Inr ips))"
  obtain w2 r2 where loop: "probe_ips net ?c1 ips ?w1 [] False = (w2, r2)"
    by (cases "probe_ips net ?c1 ips ?w1 [] False") blast
  from probe_ips_output [OF loop] have "stderr w2 = stderr w"
    by (simp add: log_event_def)
  moreover from Inr loop have "stderr (fst (fst (check_domain net (w, c) d))) = stderr w2"
    by (cases r2) (auto simp add: check_domain_def Let_def print_def split: prod.splits)
  ultimately show ?thesis using assms by simp
qed

lemma check_all_stderr:
  "check_all net ds (w, c) n = ((w', c'), r) \<Longrightarrow> stderr w' = stderr w"
proof (induction ds arbitrary: w c n)
  case Nil
  then show ?case by simp
next
  case (Cons d ds)
  obtain w1 c1 r1 where one: "check_domain net (w, c) d = ((w1, c1), r1)"
    by (cases "check_domain net (w, c) d") auto
  note err1 = check_domain_stderr [OF one]
  show ?case
  proof (cases r1)
    case (Inl e)
    with Cons.prems one err1 show ?thesis by simp
  next
    case (Inr b)
    with Cons.prems one obtain n1 where "check_all net ds (w1, c1) n1 = ((w', c'), r)"
      by simp
    from Cons.IH [OF this] err1 show ?thesis by simp
  qed
qed

lemma run_checks_stderr:
  assumes "run_checks net (w, c) ds = ((w', c'), r)"
  shows "stderr w' = stderr w"
proof -
  let ?w0 = "if \<not> quiet c
             then print (print w ([CHR 0x0A] @ ''Microsoft Update Connectivity Check''))
                    (replicate 50 CHR ''-'')
             else w"
  obtain w1 c1 r1 where loop: "check_all net ds (?w0, c) 0 = ((w1, c1), r1)"
    by (cases "check_all net ds (?w0, c) 0") auto
  from check_all_stderr [OF loop] have "stderr w1 = stderr w"
    by (simp add: print_def)
  moreover from loop have "stderr (fst (fst (run_checks net (w, c) ds))) = stderr w1"
    by (cases "quiet c"; cases r1) (simp_all add: run_checks_def Let_def print_def)
  ultimately show ?thesis using assms by simp
qed

lemma interrupted_escapes: "interrupted ev \<Longrightarrow> escapes ev = Some KeyboardInterrupt"
  by (cases ev) simp_all

section \<open>The claims\<close>

text \<open>
  C2, as amended. When the resolution of a domain raises \<open>socket.gaierror\<close>,
  \<open>check_domain\<close> returns \<open>False\<close> (not fully reachable), has added exactly 1 to
  \<open>dns_failures\<close> and to \<open>failed_domains\<close> (and to \<open>total_domains\<close>), and has made no
  network call but the resolution itself, so no port probe. The run is not aborted: the
  loop of \<open>run_checks\<close> goes on from the state reached, and its next network call is the
  resolution of the next domain.
\<close>

theorem dns_failure_counted:
  assumes "gethostbyname_ex net (length (net_log w)) d = Inl (Gaierror m)"
  shows "\<exists>w' c'. check_domain net (w, c) d = ((w', c'), Inr False)
           \<and> dns_failures c' = dns_failures c + 1
           \<and> failed_domains c' = failed_domains c + 1
           \<and> total_domains c' = total_domains c + 1
           \<and> net_log w' = net_log w @ [Resolve d (Inl (Gaierror m))]
           \<and> (\<forall>domains n. check_all net (d # domains) (w, c) n
                              = check_all net domains (w', c') n)
           \<and> (\<forall>d2 domains n. \<exists>evs.
                 net_log (fst (fst (check_all net (d # d2 # domains) (w, c) n)))
                 = net_log w @ Resolve d (Inl (Gaierror m))
                     # Resolve d2 (gethostbyname_ex net (Suc (length (net_log w))) d2) # evs)"
proof -
  let ?w' = "if quiet c then log_event w (Resolve d (Inl (Gaierror m)))
             else print (log_event w (Resolve d (Inl (Gaierror m))))
                    (dns_fail_line d (Gaierror m))"
  let ?c' = "c\<lparr>total_domains := total_domains c + 1, dns_failures := dns_failures c + 1,
               failed_domains := failed_domains c + 1\<rparr>"
  note one = check_domain_gaierror [OF assms, of c]
  have log: "net_log ?w' = net_log w @ [Resolve d (Inl (Gaierror m))]"
    by (simp add: log_event_def print_def)
  have next_one: "check_all net (d # domains) (w, c) n = check_all net domains (?w', ?c') n"
    for domains n
    using one by simp
  have later: "\<exists>evs. net_log (fst (fst (check_all net (d # d2 # domains) (w, c) n)))
                 = net_log w @ Resolve d (Inl (Gaierror m))
                     # Resolve d2 (gethostbyname_ex net (Suc (length (net_log w))) d2) # evs"
    for d2 domains n
  proof -
    obtain wf cf rf where fin: "check_all net (d2 # domains) (?w', ?c') n = ((wf, cf), rf)"
      by (cases "check_all net (d2 # domains) (?w', ?c') n") auto
    from check_all_first_event [OF fin] log obtain evs where
      "net_log wf = net_log w @ Resolve d (Inl (Gaierror m))
         # Resolve d2 (gethostbyname_ex net (Suc (length (net_log w))) d2) # evs"
      by auto
    with fin next_one [of "d2 # domains" n] show ?thesis by simp
  qed
  from one log next_one later show ?thesis
    by (intro exI [of _ ?w'] exI [of _ ?c']) simp
qed

theorem dns_failure_counted_witness:
  "gethostbyname_ex example_net (length (net_log empty_world)) ''nodns.example''
     = Inl (Gaierror ''[Errno -2] Name or service not known'')
   \<and> snd (check_domain example_net (empty_world, ConnectivityChecker 3 False False)
             ''nodns.example'') = Inr False
   \<and> dns_failures (snd (fst (check_domain example_net
        (empty_world, ConnectivityChecker 3 False False) ''nodns.example''))) = 1
   \<and> failed_domains (snd (fst (check_domain example_net
        (empty_world, ConnectivityChecker 3 False False) ''nodns.example''))) = 1
   \<and> net_log (fst (fst (check_domain example_net
        (empty_world, ConnectivityChecker 3 False False) ''nodns.example'')))
       = [Resolve ''nodns.example'' (Inl (Gaierror ''[Errno -2] Name or service not known''))]
   \<and> take 2 (net_log (fst (fst (check_all example_net [''nodns.example'', ''good.example'']
        (empty_world, ConnectivityChecker 3 False False) 0))))
       = [Resolve ''nodns.example'' (Inl (Gaierror ''[Errno -2] Name or service not known'')),
          Resolve ''good.example'' (Inr [''192.0.2.1''])]"
proof -
  have h: "gethostbyname_ex example_net (length (net_log empty_world)) ''nodns.example''
             = Inl (Gaierror ''[Errno -2] Name or service not known'')"
    by (simp add: example_net_def)
  have g: "gethostbyname_ex example_net (Suc (length (net_log empty_world))) ''good.example''
             = Inr [''192.0.2.1'']"
    by (simp add: example_net_def)
  from dns_failure_counted [OF h, of "ConnectivityChecker 3 False False"] obtain w' c' where
    one: "check_domain example_net (empty_world, ConnectivityChecker 3 False False)
            ''nodns.example'' = ((w', c'), Inr False)"
      "dns_failures c' = dns_failures (ConnectivityChecker 3 False False) + 1"
      "failed_domains c' = failed_domains (ConnectivityChecker 3 False False) + 1"
      "net_log w' = net_log empty_world
         @ [Resolve ''nodns.example'' (Inl (Gaierror ''[Errno -2] Name or service not known''))]"
    and later: "\<And>d2 domains n. \<exists>evs.
         net_log (fst (fst (check_all example_net (''nodns.example'' # d2 # domains)
           (empty_world, ConnectivityChecker 3 False False) n)))
         = net_log empty_world
             @ Resolve ''nodns.example'' (Inl (Gaierror ''[Errno -2] Name or service not known''))
             # Resolve d2 (gethostbyname_ex example_net (Suc (length (net_log empty_world))) d2)
             # evs"
    by blast
  from later [of "''good.example''" "[]" 0] g
  have "take 2 (net_log (fst (fst (check_all example_net [''nodns.example'', ''good.example'']
          (empty_world, ConnectivityChecker 3 False False) 0))))
        = [Resolve ''nodns.example'' (Inl (Gaierror ''[Errno -2] Name or service not known'')),
           Resolve ''good.example'' (Inr [''192.0.2.1''])]"
    by (auto simp add: empty_world_def)
  with one h show ?thesis
    by (simp add: ConnectivityChecker_def empty_world_def)
qed

theorem dns_error_not_gaierror_counterexample:
  "gethostbyname_ex example_net (length (net_log empty_world)) ''odd.example''
     = Inl (OtherException ''host name lookup failure'')
   \<and> snd (check_domain example_net (empty_world, ConnectivityChecker 3 False False)
             ''odd.example'') = Inl (OtherException ''host name lookup failure'')
   \<and> dns_failures (snd (fst (check_domain example_net
        (empty_world, ConnectivityChecker 3 False False) ''odd.example''))) = 0
   \<and> failed_domains (snd (fst (check_domain example_net
        (empty_world, ConnectivityChecker 3 False False) ''odd.example''))) = 0
   \<and> net_log (fst (fst (run_checks example_net (empty_world, ConnectivityChecker 3 False False)
        [''odd.example'', ''good.example''])))
       = [Resolve ''odd.example'' (Inl (OtherException ''host name lookup failure''))]"
  by code_simp

text \<open>
  C9. When the resolution succeeds with an empty address list, \<open>check_domain\<close> makes
  no probe (the resolution is its only network call), adds 1 to \<open>total_domains\<close> and
  changes no other field of the checker, and returns \<open>True\<close>.
\<close>

theorem empty_address_list_is_success:
  assumes "gethostbyname_ex net (length (net_log w)) d = Inr []"
  shows "\<exists>w'. check_domain net (w, c) d
                 = ((w', c\<lparr>total_domains := total_domains c + 1\<rparr>), Inr True)
           \<and> net_log w' = net_log w @ [Resolve d (Inr [])]"
  using assms by (simp add: check_domain_def Let_def log_event_def print_def)

theorem empty_address_list_is_success_witness:
  "gethostbyname_ex example_net (length (net_log empty_world)) ''empty.example'' = Inr []
   \<and> snd (check_domain example_net (empty_world, ConnectivityChecker 3 False False)
             ''empty.example'') = Inr True
   \<and> snd (fst (check_domain example_net (empty_world, ConnectivityChecker 3 False False)
             ''empty.example''))
       = \<lparr>timeout = 3, verbose = False, quiet = False,
          total_domains = 1, failed_domains = 0, dns_failures = 0\<rparr>
   \<and> net_log (fst (fst (check_domain example_net
        (empty_world, ConnectivityChecker 3 False False) ''empty.example'')))
       = [Resolve ''empty.example'' (Inr [])]"
proof -
  have h: "gethostbyname_ex example_net (length (net_log empty_world)) ''empty.example'' = Inr []"
    by (simp add: example_net_def)
  from empty_address_list_is_success [OF h, of "ConnectivityChecker 3 False False"] h
  show ?thesis
    by (auto simp add: ConnectivityChecker_def empty_world_def)
qed

text \<open>
  C5. The counters satisfy \<open>dns_failures \<le> failed_domains \<le> total_domains\<close> in a new
  checker, and every call of \<open>check_domain\<close> keeps it so, whether the call returns or
  lets an exception through; hence it holds in every state of the loop of \<open>run_checks\<close>
  and in the state a run ends in.
\<close>

theorem counters_invariant:
  "counters_ok (ConnectivityChecker t v q)
   \<and> (counters_ok c \<longrightarrow> counters_ok (snd (fst (check_domain net (w, c) d))))
   \<and> (counters_ok c \<longrightarrow> counters_ok (snd (fst (check_all net ds (w, c) n))))
   \<and> counters_ok (snd (fst (run_checks net (w, ConnectivityChecker t v q) ds)))"
proof -
  have init: "counters_ok (ConnectivityChecker t v q)" for t v q
    by (simp add: counters_ok_def ConnectivityChecker_def)
  have one: "counters_ok (snd (fst (check_domain net (w, c) d)))" if "counters_ok c"
  proof -
    obtain w' c' r where "check_domain net (w, c) d = ((w', c'), r)"
      by (cases "check_domain net (w, c) d") auto
    from check_all_counters_ok [of net "[d]" w c 0 w' c'] this that show ?thesis
      by (cases r) auto
  qed
  have loop: "counters_ok (snd (fst (check_all net ds (w, c) n)))" if "counters_ok c" for w c n
  proof -
    obtain w' c' r where "check_all net ds (w, c) n = ((w', c'), r)"
      by (cases "check_all net ds (w, c) n") auto
    from check_all_counters_ok [OF this that] this show ?thesis by simp
  qed
  from init one loop show ?thesis
    unfolding run_checks_checker by blast
qed

theorem counters_invariant_witness:
  "counters_ok (ConnectivityChecker 3 False True)
   \<and> counters_ok (snd (fst (check_domain example_net
         (empty_world, ConnectivityChecker 3 False True) ''mixed.example'')))
   \<and> counters_ok (snd (fst (check_all example_net [''good.example'', ''nodns.example'']
         (empty_world, ConnectivityChecker 3 False True) 0)))"
  using counters_invariant [of 3 False True "ConnectivityChecker 3 False True" example_net
      empty_world "''mixed.example''" "[''good.example'', ''nodns.example'']" 0]
  by simp

text \<open>
  C6. When \<open>args.timeout \<le> 0\<close>, or when \<open>--verbose\<close> and \<open>--quiet\<close> are both set, \<open>main\<close>
  returns 2 after printing one error message on standard error, and has made no network
  call (no resolution, no connect) and printed nothing on standard output.
\<close>

theorem invalid_arguments_exit_2:
  assumes "args_timeout a \<le> 0 \<or> (args_verbose a \<and> args_quiet a)"
  shows "snd (main net w a) = 2
         \<and> net_log (fst (main net w a)) = net_log w
         \<and> stdout (fst (main net w a)) = stdout w
         \<and> stderr (fst (main net w a)) =
               stderr w @ [if args_timeout a \<le> 0 then ''Error: Timeout must be positive''
                           else ''Error: Cannot use both --verbose and --quiet'']"
  using assms by (auto simp add: main_def Let_def print_err_def)

theorem invalid_arguments_exit_2_witness:
  "(args_timeout \<lparr>args_domains = None, args_timeout = 0, args_verbose = False,
                  args_quiet = False\<rparr> \<le> 0)
   \<and> main example_net empty_world
         \<lparr>args_domains = None, args_timeout = 0, args_verbose = False, args_quiet = False\<rparr>
       = (\<lparr>stdout = [], stderr = [''Error: Timeout must be positive''], net_log = []\<rparr>, 2)
   \<and> main example_net empty_world
         \<lparr>args_domains = Some [''good.example''], args_timeout = 3, args_verbose = True,
          args_quiet = True\<rparr>
       = (\<lparr>stdout = [], stderr = [''Error: Cannot use both --verbose and --quiet''],
          net_log = []\<rparr>, 2)"
proof -
  let ?a = "\<lparr>args_domains = None, args_timeout = 0, args_verbose = False, args_quiet = False\<rparr>"
  let ?b = "\<lparr>args_domains = Some [''good.example''], args_timeout = 3, args_verbose = True,
            args_quiet = True\<rparr>"
  have ha: "args_timeout ?a \<le> 0 \<or> (args_verbose ?a \<and> args_quiet ?a)" by simp
  have hb: "args_timeout ?b \<le> 0 \<or> (args_verbose ?b \<and> args_quiet ?b)" by simp
  have eq: "x = (fst x, snd x)" for x :: "world \<times> int" by simp
  from invalid_arguments_exit_2 [OF ha, of example_net empty_world]
  have "main example_net empty_world ?a
          = (\<lparr>stdout = [], stderr = [''Error: Timeout must be positive''], net_log = []\<rparr>, 2)"
    by (subst eq) (simp add: empty_world_def)
  moreover from invalid_arguments_exit_2 [OF hb, of example_net empty_world]
  have "main example_net empty_world ?b
          = (\<lparr>stdout = [], stderr = [''Error: Cannot use both --verbose and --quiet''],
             net_log = []\<rparr>, 2)"
    by (subst eq) (simp add: empty_world_def)
  ultimately show ?thesis by simp
qed

text \<open>
  C7, as amended. When the user interrupts a network call of the run, a resolution or a
  connect, \<open>main\<close> prints \<open>Interrupted by user\<close> and returns 1. The 1 is a constant: it
  does not depend on the counters and is returned also when no domain had been checked.
  When a resolution raises an exception that is neither \<open>gaierror\<close> nor an interrupt,
  \<open>main\<close> reports it on standard error and returns 2. In both cases \<open>main\<close> is the
  handler applied to the world \<open>run_checks\<close> was left in.
\<close>

theorem interrupt_exit_1_error_exit_2:
  assumes "0 < args_timeout a" and "\<not> (args_verbose a \<and> args_quiet a)"
  shows "(ev \<in> set (drop (length (net_log w)) (net_log (fst (main net w a))))
            \<and> interrupted ev \<longrightarrow>
            snd (main net w a) = 1
            \<and> (\<exists>out. stdout (fst (main net w a))
                        = out @ [[CHR 0x0A] @ ''Interrupted by user''])
            \<and> stderr (fst (main net w a)) = stderr w)
         \<and> (Resolve d (Inl (OtherException m))
              \<in> set (drop (length (net_log w)) (net_log (fst (main net w a)))) \<longrightarrow>
            snd (main net w a) = 2
            \<and> stderr (fst (main net w a)) = stderr w @ [''Unexpected error: '' @ m])
         \<and> (run_checks net
               (w, ConnectivityChecker (args_timeout a) (args_verbose a) (args_quiet a))
               (DEFAULT_DOMAINS @ (case args_domains a of None \<Rightarrow> [] | Some ds \<Rightarrow> ds))
             = ((w1, c1), Inl e) \<longrightarrow>
            (e = KeyboardInterrupt \<longrightarrow>
               main net w a = (print w1 ([CHR 0x0A] @ ''Interrupted by user''), 1))
            \<and> (e \<noteq> KeyboardInterrupt \<longrightarrow>
               main net w a = (print_err w1 (''Unexpected error: '' @ exn_str e), 2)))"
proof -
  let ?run = "run_checks net
                (w, ConnectivityChecker (args_timeout a) (args_verbose a) (args_quiet a))
                (DEFAULT_DOMAINS @ (case args_domains a of None \<Rightarrow> [] | Some ds \<Rightarrow> ds))"
  have handler: "(e = KeyboardInterrupt \<longrightarrow>
                    main net w a = (print w1 ([CHR 0x0A] @ ''Interrupted by user''), 1))
                 \<and> (e \<noteq> KeyboardInterrupt \<longrightarrow>
                    main net w a = (print_err w1 (''Unexpected error: '' @ exn_str e), 2))"
    if "?run = ((w1, c1), Inl e)" for w1 c1 e
    using assms that by (cases e) (auto simp add: main_def Let_def)
  obtain wr cr r where run: "?run = ((wr, cr), r)"
    by (cases ?run) auto
  from run_checks_trace [OF run] obtain evs where
    evs: "net_log wr = net_log w @ evs" "stops_at evs (raised r)"
    by blast
  note err = run_checks_stderr [OF run]
  from assms run have "net_log (fst (main net w a)) = net_log wr"
    by (cases r) (auto simp add: main_def Let_def print_def print_err_def split: exn.splits)
  with evs(1) have since: "drop (length (net_log w)) (net_log (fst (main net w a))) = evs"
    by simp
  have part1: "snd (main net w a) = 1
               \<and> (\<exists>out. stdout (fst (main net w a))
                           = out @ [[CHR 0x0A] @ ''Interrupted by user''])
               \<and> stderr (fst (main net w a)) = stderr w"
    if "ev \<in> set evs" and "interrupted ev"
  proof -
    from stops_at_escape [OF evs(2) that(1) interrupted_escapes [OF that(2)]]
    have "r = Inl KeyboardInterrupt" by (cases r) simp_all
    with run handler [of wr cr KeyboardInterrupt]
    have "main net w a = (print wr ([CHR 0x0A] @ ''Interrupted by user''), 1)"
      by simp
    with err show ?thesis by (simp add: print_def)
  qed
  have part2: "snd (main net w a) = 2
               \<and> stderr (fst (main net w a)) = stderr w @ [''Unexpected error: '' @ m]"
    if "Resolve d (Inl (OtherException m)) \<in> set evs"
  proof -
    have "escapes (Resolve d (Inl (OtherException m))) = Some (OtherException m)"
      by simp
    from stops_at_escape [OF evs(2) that this]
    have "r = Inl (OtherException m)" by (cases r) simp_all
    with run handler [of wr cr "OtherException m"]
    have "main net w a = (print_err wr (''Unexpected error: '' @ m), 2)"
      by simp
    with err show ?thesis by (simp add: print_err_def)
  qed
  from part1 part2 handler show ?thesis
    unfolding since by blast
qed

theorem interrupt_exit_1_error_exit_2_witness:
  "0 < args_timeout \<lparr>args_domains = None, args_timeout = 3, args_verbose = False,
                      args_quiet = False\<rparr>
   \<and> Resolve ''windowsupdate.microsoft.com'' (Inl KeyboardInterrupt)
       \<in> set (drop (length (net_log empty_world)) (net_log (fst (main interrupting_net empty_world
             \<lparr>args_domains = None, args_timeout = 3, args_verbose = False,
              args_quiet = False\<rparr>))))
   \<and> interrupted (Resolve ''windowsupdate.microsoft.com'' (Inl KeyboardInterrupt))
   \<and> snd (main interrupting_net empty_world
          \<lparr>args_domains = None, args_timeout = 3, args_verbose = False,
           args_quiet = False\<rparr>) = 1
   \<and> Connect ''192.0.2.9'' 80 (Inl KeyboardInterrupt)
       \<in> set (drop (length (net_log empty_world)) (net_log (fst (main example_net empty_world
             \<lparr>args_domains = Some [''hang.example''], args_timeout = 3, args_verbose = False,
              args_quiet = True\<rparr>))))
   \<and> snd (main example_net empty_world
          \<lparr>args_domains = Some [''hang.example''], args_timeout = 3, args_verbose = False,
           args_quiet = True\<rparr>) = 1
   \<and> Resolve ''odd.example'' (Inl (OtherException ''host name lookup failure''))
       \<in> set (drop (length (net_log empty_world)) (net_log (fst (main example_net empty_world
             \<lparr>args_domains = Some [''odd.example''], args_timeout = 3, args_verbose = False,
              args_quiet = True\<rparr>))))
   \<and> snd (main example_net empty_world
          \<lparr>args_domains = Some [''odd.example''], args_timeout = 3, args_verbose = False,
           args_quiet = True\<rparr>) = 2
   \<and> stderr (fst (main example_net empty_world
          \<lparr>args_domains = Some [''odd.example''], args_timeout = 3, args_verbose = False,
           args_quiet = True\<rparr>)) = [''Unexpected error: host name lookup failure'']"
proof -
  let ?a = "\<lparr>args_domains = None, args_timeout = 3, args_verbose = False, args_quiet = False\<rparr>"
  let ?h = "\<lparr>args_domains = Some [''hang.example''], args_timeout = 3, args_verbose = False,
            args_quiet = True\<rparr>"
  let ?b = "\<lparr>args_domains = Some [''odd.example''], args_timeout = 3, args_verbose = False,
            args_quiet = True\<rparr>"
  let ?ea = "Resolve ''windowsupdate.microsoft.com'' (Inl KeyboardInterrupt)"
  let ?eh = "Connect ''192.0.2.9'' 80 (Inl KeyboardInterrupt)"
  let ?R = "run_checks interrupting_net (empty_world, ConnectivityChecker 3 False False)
              DEFAULT_DOMAINS"
  have va: "0 < args_timeout ?a" "\<not> (args_verbose ?a \<and> args_quiet ?a)" by simp_all
  have vh: "0 < args_timeout ?h" "\<not> (args_verbose ?h \<and> args_quiet ?h)" by simp_all
  have vb: "0 < args_timeout ?b" "\<not> (args_verbose ?b \<and> args_quiet ?b)" by simp_all
  have ma: "?ea \<in> set (drop (length (net_log empty_world))
                           (net_log (fst (main interrupting_net empty_world ?a))))"
    by code_simp
  have mh: "?eh \<in> set (drop (length (net_log empty_world))
                           (net_log (fst (main example_net empty_world ?h))))"
    by code_simp
  have mb: "Resolve ''odd.example'' (Inl (OtherException ''host name lookup failure''))
              \<in> set (drop (length (net_log empty_world))
                         (net_log (fst (main example_net empty_world ?b))))"
    by code_simp
  have r: "snd ?R = Inl KeyboardInterrupt"
    by code_simp
  have ha: "run_checks interrupting_net
              (empty_world, ConnectivityChecker (args_timeout ?a) (args_verbose ?a) (args_quiet ?a))
              (DEFAULT_DOMAINS @ (case args_domains ?a of None \<Rightarrow> [] | Some ds \<Rightarrow> ds))
            = ((fst (fst ?R), snd (fst ?R)), Inl KeyboardInterrupt)"
    using r by (simp add: prod_eq_iff)
  have e: "stderr empty_world = []"
    by (simp add: empty_world_def)
  from interrupt_exit_1_error_exit_2 [OF va, of ?ea empty_world interrupting_net _ _
         "fst (fst ?R)" "snd (fst ?R)" KeyboardInterrupt] ma ha
  have "snd (main interrupting_net empty_world ?a) = 1"
    by simp
  moreover
  from interrupt_exit_1_error_exit_2 [OF vh, of ?eh empty_world example_net] mh
  have "snd (main example_net empty_world ?h) = 1"
    by simp
  moreover
  from interrupt_exit_1_error_exit_2 [OF vb, of _ empty_world example_net "''odd.example''"
         "''host name lookup failure''"] mb
  have "snd (main example_net empty_world ?b) = 2"
    and "stderr (fst (main example_net empty_world ?b))
           = [''Unexpected error: host name lookup failure'']"
    by (simp_all add: e)
  ultimately show ?thesis
    using ma mh mb by simp
qed

theorem interrupt_exit_constant_counterexample:
  "snd (main interrupting_net empty_world
          \<lparr>args_domains = None, args_timeout = 3, args_verbose = False,
           args_quiet = False\<rparr>) = 1
   \<and> net_log (fst (main interrupting_net empty_world
          \<lparr>args_domains = None, args_timeout = 3, args_verbose = False,
           args_quiet = False\<rparr>))
       = [Resolve ''windowsupdate.microsoft.com'' (Inl KeyboardInterrupt)]
   \<and> failed_domains (snd (fst (run_checks interrupting_net
         (empty_world, ConnectivityChecker 3 False False) DEFAULT_DOMAINS))) = 0
   \<and> dns_failures (snd (fst (run_checks interrupting_net
         (empty_world, ConnectivityChecker 3 False False) DEFAULT_DOMAINS))) = 0
   \<and> snd (main example_net empty_world
          \<lparr>args_domains = Some [''hang.example''], args_timeout = 3, args_verbose = False,
           args_quiet = True\<rparr>) = 1
   \<and> failed_domains (snd (fst (run_checks example_net
         (empty_world, ConnectivityChecker 3 False True)
         (DEFAULT_DOMAINS @ [''hang.example''])))) = 6"
  by code_simp

text \<open>
  C1, as amended. When a run returns, its exit code is 2 if
  \<open>dns_failures = total_domains\<close>, otherwise 1 if \<open>failed_domains > 0\<close>, otherwise 0.
  The first test has no guard \<open>total_domains > 0\<close>: on a new checker a run over a
  non-empty list agrees with the law of the specification, and a run over the empty list
  returns 2.
\<close>

theorem exit_code_of_run:
  assumes "run_checks net (w, ConnectivityChecker t v q) domains = ((w', c'), Inr code)"
  shows "code = (if dns_failures c' = total_domains c' then 2
                 else if 0 < failed_domains c' then 1 else 0)
         \<and> (domains \<noteq> [] \<longrightarrow> code = exit_code_law c')
         \<and> (domains = [] \<longrightarrow> code = 2)"
proof -
  from run_checks_Inr [OF assms] obtain w0 w1 sc where
    loop: "check_all net domains (w0, ConnectivityChecker t v q) 0 = ((w1, c'), Inr sc)"
    and code: "code = (if dns_failures c' = total_domains c' then 2
                       else if 0 < failed_domains c' then 1 else 0)"
    by blast
  from check_all_success_count [OF loop]
  have total: "total_domains c' = int (length domains)"
    by (simp add: ConnectivityChecker_def)
  have "code = exit_code_law c'" if "domains \<noteq> []"
    using that code total by (simp add: exit_code_law_def)
  moreover have "code = 2" if "domains = []"
    using that loop code by (auto simp add: ConnectivityChecker_def)
  ultimately show ?thesis using code by blast
qed

theorem exit_code_of_run_witness:
  "snd (run_checks example_net (empty_world, ConnectivityChecker 3 False True)
          [''good.example'', ''nodns.example'']) = Inr 1
   \<and> exit_code_law (snd (fst (run_checks example_net
          (empty_world, ConnectivityChecker 3 False True)
          [''good.example'', ''nodns.example'']))) = 1"
proof -
  let ?R = "run_checks example_net (empty_world, ConnectivityChecker 3 False True)
              [''good.example'', ''nodns.example'']"
  have r: "snd ?R = Inr 1"
    by code_simp
  then have h: "?R = ((fst (fst ?R), snd (fst ?R)), Inr 1)"
    by (simp add: prod_eq_iff)
  from exit_code_of_run [OF h] r show ?thesis
    by simp
qed

theorem exit_code_empty_run_counterexample:
  "snd (run_checks example_net (empty_world, ConnectivityChecker 3 False False) []) = Inr 2
   \<and> exit_code_law (snd (fst (run_checks example_net
          (empty_world, ConnectivityChecker 3 False False) []))) = 0"
  by (simp add: run_checks_def Let_def ConnectivityChecker_def exit_code_law_def)

text \<open>
  C10. \<open>check_domain\<close> returns \<open>True\<close> exactly when it left \<open>failed_domains\<close> as it
  was, and \<open>False\<close> exactly when it added 1 to it. So, on a new checker, the
  \<open>success_count\<close> the loop of \<open>run_checks\<close> ends with is
  \<open>total_domains - failed_domains\<close>, \<open>total_domains\<close> is the length of the domain list
  (a repeated domain counts each time), and, when not quiet, the summary line printed
  carries these two numbers.
\<close>

theorem success_count_is_total_minus_failed:
  "(check_domain net (w, c) d = ((w', c'), Inr b) \<longrightarrow>
      (b \<longleftrightarrow> failed_domains c' = failed_domains c)
      \<and> (\<not> b \<longleftrightarrow> failed_domains c' = failed_domains c + 1))
   \<and> (check_all net ds (w0, ConnectivityChecker t v q) 0 = ((w1, c1), Inr success_count) \<longrightarrow>
      success_count = total_domains c1 - failed_domains c1
      \<and> total_domains c1 = int (length ds))
   \<and> (run_checks net (w0, ConnectivityChecker t v q) ds = ((w2, c2), Inr code) \<longrightarrow>
      total_domains c2 = int (length ds)
      \<and> (\<not> q \<longrightarrow>
           ([CHR 0x0A] @ ''Summary: '' @ str_int (total_domains c2 - failed_domains c2) @ ''/''
              @ str_int (int (length ds)) @ '' domains fully accessible'')
           \<in> set (stdout w2)))"
proof -
  have one: "(b \<longleftrightarrow> failed_domains c' = failed_domains c)
             \<and> (\<not> b \<longleftrightarrow> failed_domains c' = failed_domains c + 1)"
    if "check_domain net (w, c) d = ((w', c'), Inr b)"
    using check_domain_counters [OF that] by auto
  have loop: "n = total_domains c1 - failed_domains c1 \<and> total_domains c1 = int (length ds)
              \<and> quiet c1 = q"
    if "check_all net ds (w0, ConnectivityChecker t v q) 0 = ((w1, c1), Inr n)" for w0 w1 c1 n
    using check_all_success_count [OF that] by (simp add: ConnectivityChecker_def)
  have run: "total_domains c2 = int (length ds)
             \<and> (\<not> q \<longrightarrow>
                  ([CHR 0x0A] @ ''Summary: '' @ str_int (total_domains c2 - failed_domains c2)
                     @ ''/'' @ str_int (int (length ds)) @ '' domains fully accessible'')
                  \<in> set (stdout w2))"
    if "run_checks net (w0, ConnectivityChecker t v q) ds = ((w2, c2), Inr code)"
  proof -
    from run_checks_Inr [OF that] obtain wa wb sc where
      l: "check_all net ds (wa, ConnectivityChecker t v q) 0 = ((wb, c2), Inr sc)"
      and p: "\<not> quiet c2 \<longrightarrow>
                ([CHR 0x0A] @ ''Summary: '' @ str_int sc @ ''/''
                   @ str_int (total_domains c2) @ '' domains fully accessible'')
                \<in> set (stdout w2)"
      by blast
    from loop [OF l] p show ?thesis by simp
  qed
  from one loop run show ?thesis by blast
qed

theorem success_count_is_total_minus_failed_witness:
  "snd (check_domain example_net (empty_world, ConnectivityChecker 3 False False)
          ''mixed.example'') = Inr False
   \<and> failed_domains (snd (fst (check_domain example_net
         (empty_world, ConnectivityChecker 3 False False) ''mixed.example''))) = 1
   \<and> snd (check_all example_net [''good.example'', ''nodns.example'', ''good.example'']
          (empty_world, ConnectivityChecker 3 False False) 0) = Inr 2
   \<and> total_domains (snd (fst (check_all example_net
         [''good.example'', ''nodns.example'', ''good.example'']
         (empty_world, ConnectivityChecker 3 False False) 0))) = 3
   \<and> failed_domains (snd (fst (check_all example_net
         [''good.example'', ''nodns.example'', ''good.example'']
         (empty_world, ConnectivityChecker 3 False False) 0))) = 1
   \<and> snd (run_checks example_net (empty_world, ConnectivityChecker 3 False False)
          [''good.example'', ''nodns.example'', ''good.example'']) = Inr 1
   \<and> total_domains (snd (fst (run_checks example_net
         (empty_world, ConnectivityChecker 3 False False)
         [''good.example'', ''nodns.example'', ''good.example'']))) = 3"
proof -
  let ?c = "ConnectivityChecker 3 False False"
  let ?ds = "[''good.example'', ''nodns.example'', ''good.example'']"
  let ?D = "check_domain example_net (empty_world, ?c) ''mixed.example''"
  let ?L = "check_all example_net ?ds (empty_world, ?c) 0"
  let ?R = "run_checks example_net (empty_world, ?c) ?ds"
  have d: "snd ?D = Inr False" by code_simp
  have l: "snd ?L = Inr 2" by code_simp
  have r: "snd ?R = Inr 1" by code_simp
  have lf: "failed_domains (snd (fst ?L)) = 1" by code_simp
  from d have hd: "?D = ((fst (fst ?D), snd (fst ?D)), Inr False)"
    by (simp add: prod_eq_iff)
  from l have hl: "?L = ((fst (fst ?L), snd (fst ?L)), Inr 2)"
    by (simp add: prod_eq_iff)
  from r have hr: "?R = ((fst (fst ?R), snd (fst ?R)), Inr 1)"
    by (simp add: prod_eq_iff)
  have f: "failed_domains ?c = 0"
    by (simp add: ConnectivityChecker_def)
  from success_count_is_total_minus_failed
         [of example_net empty_world ?c "''mixed.example''" "fst (fst ?D)" "snd (fst ?D)" False
             ?ds empty_world 3 False False "fst (fst ?L)" "snd (fst ?L)" 2
             "fst (fst ?R)" "snd (fst ?R)" 1]
       hd hl hr d l r lf f
  show ?thesis
    by simp
qed

text \<open>
  C3. For a domain that resolves, and whose probes the user does not interrupt,
  \<open>check_domain\<close> returns \<open>True\<close> if and only if every probe, over all addresses and both
  ports, succeeded. When at least one probe failed it adds exactly 1 to \<open>failed_domains\<close>,
  however many probes failed and whatever the other addresses answered; when none failed
  it leaves \<open>failed_domains\<close> alone. \<open>dns_failures\<close> does not change.
\<close>

theorem fully_reachable_iff_all_probes_ok:
  assumes "gethostbyname_ex net (length (net_log w)) d = Inr ips"
    and "\<not> list_ex interrupted
           (probe_trace net (timeout c) (Suc (length (net_log w))) (address_port_pairs ips))"
  shows "\<exists>w' c'.
           check_domain net (w, c) d =
             ((w', c'),
              Inr (list_all connect_ok
                     (probe_trace net (timeout c) (Suc (length (net_log w)))
                        (address_port_pairs ips))))
           \<and> net_log w' = net_log w @ Resolve d (Inr ips)
                 # probe_trace net (timeout c) (Suc (length (net_log w))) (address_port_pairs ips)
           \<and> failed_domains c' =
                 (if list_all connect_ok
                       (probe_trace net (timeout c) (Suc (length (net_log w)))
                          (address_port_pairs ips))
                  then failed_domains c else failed_domains c + 1)
           \<and> dns_failures c' = dns_failures c
           \<and> total_domains c' = total_domains c + 1"
proof -
  from check_domain_resolved_returns [OF assms] obtain w' c' b where
    ret: "check_domain net (w, c) d = ((w', c'), Inr b)"
    by blast
  note facts = check_domain_resolved [OF assms(1) ret]
  from facts(2) ret
  have "check_domain net (w, c) d =
          ((w', c'),
           Inr (list_all connect_ok
                  (probe_trace net (timeout c) (Suc (length (net_log w)))
                     (address_port_pairs ips))))"
    by simp
  moreover from facts(2,3)
  have "failed_domains c' =
          (if list_all connect_ok
                (probe_trace net (timeout c) (Suc (length (net_log w))) (address_port_pairs ips))
           then failed_domains c else failed_domains c + 1)"
    and "dns_failures c' = dns_failures c"
    and "total_domains c' = total_domains c + 1"
    by simp_all
  ultimately show ?thesis
    using facts(1) by blast
qed

theorem fully_reachable_iff_all_probes_ok_witness:
  "gethostbyname_ex example_net (length (net_log empty_world)) ''mixed.example''
     = Inr [''192.0.2.2'', ''192.0.2.1'']
   \<and> \<not> list_ex interrupted
         (probe_trace example_net (timeout (ConnectivityChecker 3 False True))
            (Suc (length (net_log empty_world)))
            (address_port_pairs [''192.0.2.2'', ''192.0.2.1'']))
   \<and> snd (check_domain example_net (empty_world, ConnectivityChecker 3 False True)
             ''mixed.example'') = Inr False
   \<and> failed_domains (snd (fst (check_domain example_net
         (empty_world, ConnectivityChecker 3 False True) ''mixed.example''))) = 1"
proof -
  let ?c = "ConnectivityChecker 3 False True"
  let ?t = "probe_trace example_net (timeout ?c) (Suc (length (net_log empty_world)))
              (address_port_pairs [''192.0.2.2'', ''192.0.2.1''])"
  have h1: "gethostbyname_ex example_net (length (net_log empty_world)) ''mixed.example''
              = Inr [''192.0.2.2'', ''192.0.2.1'']"
    by (simp add: example_net_def)
  have h2: "\<not> list_ex interrupted ?t"
    by code_simp
  have v: "list_all connect_ok ?t = False"
    by code_simp
  have f: "failed_domains ?c = 0"
    by (simp add: ConnectivityChecker_def)
  from fully_reachable_iff_all_probes_ok [OF h1 h2] h1 h2 show ?thesis
    unfolding v f by auto
qed

text \<open>
  C4. For a domain that resolves, and whose probes the user does not interrupt, the
  network calls of \<open>check_domain\<close> are the resolution and then one connect for each pair
  of a resolved address and a port, the addresses in the order resolved and for each
  address port 80 and then port 443: nothing is tried twice, and a connect that fails
  does not stop the later ones, since the call returns with all of them made.
\<close>

theorem each_pair_probed_once_in_order:
  assumes "gethostbyname_ex net (length (net_log w)) d = Inr ips"
    and "\<not> list_ex interrupted
           (probe_trace net (timeout c) (Suc (length (net_log w))) (address_port_pairs ips))"
  shows "\<exists>w' c' b.
           check_domain net (w, c) d = ((w', c'), Inr b)
           \<and> net_log w' = net_log w @ Resolve d (Inr ips)
                 # probe_trace net (timeout c) (Suc (length (net_log w))) (address_port_pairs ips)
           \<and> map connect_target
                 (probe_trace net (timeout c) (Suc (length (net_log w))) (address_port_pairs ips))
               = map Some (concat (map (\<lambda>ip. [(ip, 80), (ip, 443)]) ips))
           \<and> length (net_log w') = length (net_log w) + 1 + 2 * length ips
           \<and> (\<forall>ip port. count_list (address_port_pairs ips) (ip, port) =
                   (if port = 80 \<or> port = 443 then count_list ips ip else 0))"
proof -
  from check_domain_resolved_returns [OF assms] obtain w' c' b where
    ret: "check_domain net (w, c) d = ((w', c'), Inr b)"
    by blast
  note log = check_domain_resolved(1) [OF assms(1) ret]
  have "map connect_target
          (probe_trace net (timeout c) (Suc (length (net_log w))) (address_port_pairs ips))
        = map Some (concat (map (\<lambda>ip. [(ip, 80), (ip, 443)]) ips))"
    by (simp add: connect_target_probe_trace address_port_pairs_def)
  moreover from log have "length (net_log w') = length (net_log w) + 1 + 2 * length ips"
    by (simp add: length_address_port_pairs)
  ultimately show ?thesis
    using ret log count_address_port_pairs by blast
qed

theorem each_pair_probed_once_in_order_witness:
  "gethostbyname_ex example_net (length (net_log empty_world)) ''mixed.example''
     = Inr [''192.0.2.2'', ''192.0.2.1'']
   \<and> \<not> list_ex interrupted
         (probe_trace example_net (timeout (ConnectivityChecker 3 False True))
            (Suc (length (net_log empty_world)))
            (address_port_pairs [''192.0.2.2'', ''192.0.2.1'']))
   \<and> net_log (fst (fst (check_domain example_net
         (empty_world, ConnectivityChecker 3 False True) ''mixed.example'')))
       = [Resolve ''mixed.example'' (Inr [''192.0.2.2'', ''192.0.2.1'']),
          Connect ''192.0.2.2'' 80 (Inr ()),
          Connect ''192.0.2.2'' 443 (Inl (OtherException ''timed out'')),
          Connect ''192.0.2.1'' 80 (Inr ()),
          Connect ''192.0.2.1'' 443 (Inr ())]"
proof -
  let ?c = "ConnectivityChecker 3 False True"
  let ?t = "probe_trace example_net (timeout ?c) (Suc (length (net_log empty_world)))
              (address_port_pairs [''192.0.2.2'', ''192.0.2.1''])"
  have h1: "gethostbyname_ex example_net (length (net_log empty_world)) ''mixed.example''
              = Inr [''192.0.2.2'', ''192.0.2.1'']"
    by (simp add: example_net_def)
  have h2: "\<not> list_ex interrupted ?t"
    by code_simp
  have v: "?t = [Connect ''192.0.2.2'' 80 (Inr ()),
                 Connect ''192.0.2.2'' 443 (Inl (OtherException ''timed out'')),
                 Connect ''192.0.2.1'' 80 (Inr ()),
                 Connect ''192.0.2.1'' 443 (Inr ())]"
    by code_simp
  have e: "net_log empty_world = []"
    by (simp add: empty_world_def)
  from each_pair_probed_once_in_order [OF h1 h2, unfolded v] h1 h2 show ?thesis
    by (auto simp add: e)
qed




end
